theory Spec2Isabelle
  imports Main "HOL-Library.Multiset"
begin

section \<open>Values, references and the object store\<close>

text \<open>
  JavaScript objects are shared by reference, so events, listeners, buses and promises
  live in a store and are named by references (natural numbers).  A \<open>Symbol()\<close> is a
  fresh natural number; \<open>root\<close> is the symbol exported by the bus module.
  Functions supplied by the application (listener callbacks, the debug logger) are
  named by a function reference and interpreted by a table that every dispatching
  operation takes as its first argument.
\<close>

type_synonym symbol = nat
type_synonym lid = nat
type_synonym eid = nat
type_synonym pid = nat
type_synonym bid = nat
type_synonym fid = nat

datatype error = Error string | TypeError string | ConstraintViolated int

datatype jsval = JUndefined | JNum int | JStr string | JBool bool

text \<open>
  Classes: \<open>Object\<close>, the class \<open>Event\<close>, and a declaration
  \<open>class C_n extends c\<close>.  The superclass of a declared class is its second argument,
  which is what \<open>Object.getPrototypeOf(C.prototype).constructor\<close> and the prototype of
  the constructor function \<open>C\<close> itself both yield.
\<close>

datatype cls = ObjectCls | EventCls | Extends nat cls

fun is_event_cls :: "cls \<Rightarrow> bool" where
  "is_event_cls ObjectCls = False"
| "is_event_cls EventCls = True"
| "is_event_cls (Extends n c) = is_event_cls c"


subsection \<open>EventStatus\<close>

record event_status =
  finished :: bool
  aborted :: bool
  stopped :: bool

definition RUNNING :: event_status where
  "RUNNING = \<lparr>finished = False, aborted = False, stopped = False\<rparr>"

definition FINISHED :: event_status where
  "FINISHED = \<lparr>finished = True, aborted = False, stopped = False\<rparr>"

definition STOPPED :: event_status where
  "STOPPED = \<lparr>finished = True, aborted = False, stopped = True\<rparr>"

definition ABORTED :: event_status where
  "ABORTED = \<lparr>finished = True, aborted = True, stopped = False\<rparr>"

subsection \<open>EventState, Event, EventListener, EventBus\<close>

record event_state =
  status :: event_status
  reason :: "string option"
  parent :: "eid option"
  depth :: nat
  deliveries :: "lid list"
  bus :: bid

text \<open>
  The closure \<open>success => success ? resolve(this) : reject(this[$].reason)\<close> built by
  the constructor: it captures the event under construction and the settling functions
  of the promise under construction.
\<close>

datatype resolver = Resolver eid pid

datatype promise_state = Pending | Fulfilled eid | Rejected "string option"

text \<open>
  An event object: its class (\<open>this.constructor\<close>), the non-enumerable slot \<open>[$]\<close>, and
  its enumerable own properties: \<open>promise\<close>, \<open>resolver\<close> and the payload fields.
  The two properties that TypeScript marks private are kept apart from the payload;
  writing them through \<open>write\<close>, \<open>delete\<close> or a plain object given to \<open>with\<close> is
  outside the model.
\<close>

record event =
  ctor :: cls
  state :: event_state
  promise :: pid
  resolver :: resolver
  payload :: "string \<rightharpoonup> jsval"

text \<open>
  The bound \<open>target\<close> of a listener only sets \<open>this\<close> inside the callback and is left out.
  Nice values are taken to be integers, as the bounds and the named levels are; \<open>NaN\<close>,
  which the range test of the constructor lets through, is outside the model.
\<close>

record listener =
  lname :: "string option"
  lowner :: "string option"
  callback :: fid
  nice_value :: int
  dollar_channels :: "symbol list"

text \<open>The logger is \<open>None\<close> for the initial \<open>(_:any) => {}\<close>.\<close>

record bus_obj =
  bname :: string
  channels :: "symbol \<rightharpoonup> lid list"
  hierarchy :: "symbol \<rightharpoonup> symbol list"
  log :: "fid option"

record world =
  slots :: "cls \<rightharpoonup> symbol"
  next_symbol :: symbol
  buses :: "bid \<Rightarrow> bus_obj"
  next_bus :: bid
  listeners :: "lid \<Rightarrow> listener"
  next_listener :: lid
  events :: "eid \<Rightarrow> event"
  next_event :: eid
  promises :: "pid \<Rightarrow> promise_state"
  next_promise :: pid
  console :: "(error \<times> lid option \<times> eid) list"

text \<open>
  What an application function does when called with an event: it returns normally
  (\<open>None\<close>) or throws (\<open>Some err\<close>), and leaves the store in some state.
\<close>

type_synonym code = "fid \<Rightarrow> eid \<Rightarrow> world \<Rightarrow> error option \<times> world"

section \<open>Event-type keys\<close>

definition root :: symbol where
  "root = 0"

text \<open>
  \<open>this[key]\<close> on a class reads the static slot along the prototype chain of the
  constructor function: the class itself, then its superclasses.  \<open>Event\<close> is a base
  class, so its chain ends at \<open>Function.prototype\<close>, which has no such slot.
\<close>

fun read_key_slot :: "(cls \<rightharpoonup> symbol) \<Rightarrow> cls \<Rightarrow> symbol option" where
  "read_key_slot sl ObjectCls = sl ObjectCls"
| "read_key_slot sl EventCls = sl EventCls"
| "read_key_slot sl (Extends n c) =
     (case sl (Extends n c) of Some k \<Rightarrow> Some k | None \<Rightarrow> read_key_slot sl c)"

text \<open>
  \<open>static key(){ if(!this[key]){ this[key] = Symbol(); } return this[key]; }\<close>.
  A symbol is truthy, so the test succeeds exactly when the read finds nothing.
\<close>

definition key_static :: "cls \<Rightarrow> world \<Rightarrow> symbol \<times> world" where
  "key_static c w =
     (case read_key_slot (slots w) c of
        Some k \<Rightarrow> (k, w)
      | None \<Rightarrow>
          (next_symbol w,
           w\<lparr>slots := (slots w)(c \<mapsto> next_symbol w), next_symbol := Suc (next_symbol w)\<rparr>))"

section \<open>Event\<close>

definition GLOBAL :: bid where
  "GLOBAL = 0"

text \<open>\<open>this[$]\<close> of an event, and an assignment to its fields.\<close>

definition st :: "world \<Rightarrow> eid \<Rightarrow> event_state" where
  "st w e = state (events w e)"

definition upd_state :: "eid \<Rightarrow> (event_state \<Rightarrow> event_state) \<Rightarrow> world \<Rightarrow> world" where
  "upd_state e f w = w\<lparr>events := (events w)(e := (events w e)\<lparr>state := f (state (events w e))\<rparr>)\<rparr>"

text \<open>\<open>new C()\<close> for an event class \<open>C\<close> whose constructor adds nothing to \<open>Event\<close>'s.\<close>

definition new_event :: "cls \<Rightarrow> world \<Rightarrow> eid \<times> world" where
  "new_event c w =
     (let e = next_event w; q = next_promise w in
      (e, w\<lparr>events := (events w)(e :=
              \<lparr>ctor = c,
               state = \<lparr>status = RUNNING, reason = None, parent = None, depth = 0,
                        deliveries = [], bus = GLOBAL\<rparr>,
               promise = q, resolver = Resolver e q, payload = Map.empty\<rparr>),
            next_event := Suc e,
            promises := (promises w)(q := Pending),
            next_promise := Suc q\<rparr>))"

definition event_key :: "eid \<Rightarrow> world \<Rightarrow> symbol \<times> world" where
  "event_key e w = key_static (ctor (events w e)) w"

text \<open>A promise settles once; later calls of its settling functions do nothing.\<close>

definition settle :: "pid \<Rightarrow> promise_state \<Rightarrow> world \<Rightarrow> world" where
  "settle q v w = (if promises w q = Pending then w\<lparr>promises := (promises w)(q := v)\<rparr> else w)"

fun call_resolver :: "resolver \<Rightarrow> bool \<Rightarrow> world \<Rightarrow> world" where
  "call_resolver (Resolver ow q) success w =
     (if success then settle q (Fulfilled ow) w
      else settle q (Rejected (reason (st w ow))) w)"

datatype source = Obj "string \<rightharpoonup> jsval" | Ev eid

text \<open>
  \<open>Object.assign(this, src)\<close> copies the enumerable own properties of \<open>src\<close>.  For an
  event these are \<open>promise\<close>, \<open>resolver\<close> and the payload; the slot \<open>[$]\<close> is
  defined with \<open>enumerable: false\<close> and is skipped.
\<close>

fun assign :: "eid \<Rightarrow> source \<Rightarrow> world \<Rightarrow> world" where
  "assign e (Obj m) w =
     w\<lparr>events := (events w)(e := (events w e)\<lparr>payload := payload (events w e) ++ m\<rparr>)\<rparr>"
| "assign e (Ev p) w =
     w\<lparr>events := (events w)(e := (events w e)
        \<lparr>promise := promise (events w p),
         resolver := resolver (events w p),
         payload := payload (events w e) ++ payload (events w p)\<rparr>)\<rparr>"

fun event_with :: "eid \<Rightarrow> source list \<Rightarrow> world \<Rightarrow> world" where
  "event_with e [] w = w"
| "event_with e (s # ss) w = event_with e ss (assign e s w)"

definition event_set_bus :: "eid \<Rightarrow> bid \<Rightarrow> world \<Rightarrow> world" where
  "event_set_bus e b w = upd_state e (\<lambda>s. s\<lparr>bus := b\<rparr>) w"

definition event_set_parent :: "eid \<Rightarrow> eid \<Rightarrow> world \<Rightarrow> world" where
  "event_set_parent e p w =
     upd_state e (\<lambda>s. s\<lparr>parent := Some p, depth := depth (st w p) + 1\<rparr>) w"

definition event_inherit :: "eid \<Rightarrow> eid \<Rightarrow> world \<Rightarrow> world" where
  "event_inherit e p w = event_with e [Ev p] (event_set_parent e p w)"

definition resolution :: "eid \<Rightarrow> world \<Rightarrow> pid" where
  "resolution e w = promise (events w e)"

definition event_finish :: "eid \<Rightarrow> world \<Rightarrow> world" where
  "event_finish e w =
     (let w1 = (if \<not> finished (status (st w e))
                then upd_state e (\<lambda>s. s\<lparr>status := FINISHED\<rparr>) w else w)
      in call_resolver (resolver (events w1 e)) (\<not> aborted (status (st w1 e))) w1)"

text \<open>The argument is \<open>None\<close> when the caller passes no reason.\<close>

definition event_abort :: "eid \<Rightarrow> string option \<Rightarrow> world \<Rightarrow> world" where
  "event_abort e r w =
     upd_state e (\<lambda>s. s\<lparr>status := ABORTED,
        reason := Some (case r of None \<Rightarrow> ''ABORT: Reason not defined.'' | Some x \<Rightarrow> x)\<rparr>) w"

definition event_stop :: "eid \<Rightarrow> string option \<Rightarrow> world \<Rightarrow> world" where
  "event_stop e r w =
     upd_state e (\<lambda>s. s\<lparr>status := STOPPED,
        reason := Some (case r of None \<Rightarrow> ''STOP: Reason not defined.'' | Some x \<Rightarrow> x)\<rparr>) w"


definition delivered :: "eid \<Rightarrow> lid \<Rightarrow> world \<Rightarrow> world" where
  "delivered e l w = upd_state e (\<lambda>s. s\<lparr>deliveries := deliveries s @ [l]\<rparr>) w"

section \<open>EventListener\<close>

definition MIN_VALUE :: int where
  "MIN_VALUE = - 20000"

definition PRE_PROCESS :: int where
  "PRE_PROCESS = - 10000"

definition DEFAULT :: int where
  "DEFAULT = 0"

definition POST_PROCESS :: int where
  "POST_PROCESS = 10000"

definition MAX_VALUE :: int where
  "MAX_VALUE = 20000"

text \<open>
  The constructor; \<open>ConstraintViolated n\<close> stands for the \<open>Error\<close> whose message quotes
  the bounds and the offending value \<open>n\<close>.  The nice value is \<open>None\<close> when the caller
  passes none.
\<close>

definition new_listener :: "fid \<Rightarrow> int option \<Rightarrow> world \<Rightarrow> (error + lid) \<times> world" where
  "new_listener f n w =
     (let nice = (case n of None \<Rightarrow> DEFAULT | Some x \<Rightarrow> x) in
      if nice < MIN_VALUE \<or> nice > MAX_VALUE then (Inl (ConstraintViolated nice), w)
      else
        (Inr (next_listener w),
         w\<lparr>listeners := (listeners w)(next_listener w :=
              \<lparr>lname = None, lowner = None, callback = f, nice_value = nice,
               dollar_channels = []\<rparr>),
           next_listener := Suc (next_listener w)\<rparr>))"

definition nice :: "world \<Rightarrow> lid \<Rightarrow> int" where
  "nice w l = nice_value (listeners w l)"

definition named :: "lid \<Rightarrow> string \<Rightarrow> string \<Rightarrow> world \<Rightarrow> world" where
  "named l n ow w =
     w\<lparr>listeners := (listeners w)(l := (listeners w l)\<lparr>lname := Some n, lowner := Some ow\<rparr>)\<rparr>"

definition on_event :: "code \<Rightarrow> lid \<Rightarrow> eid \<Rightarrow> world \<Rightarrow> error option \<times> world" where
  "on_event cd l e w = cd (callback (listeners w l)) e w"

section \<open>EventBus\<close>

text \<open>
  The bus as its later definition has it: the one that exports \<open>root\<close>, registers it in
  the constructor and appends the own key to the chain of the superclass.
\<close>

definition upd_bus :: "bid \<Rightarrow> (bus_obj \<Rightarrow> bus_obj) \<Rightarrow> world \<Rightarrow> world" where
  "upd_bus b f w = w\<lparr>buses := (buses w)(b := f (buses w b))\<rparr>"

definition constructed_bus :: "string \<Rightarrow> bus_obj" where
  "constructed_bus n =
     \<lparr>bname = n, channels = [root \<mapsto> []], hierarchy = [root \<mapsto> [root]], log = None\<rparr>"

definition new_bus :: "string \<Rightarrow> world \<Rightarrow> bid \<times> world" where
  "new_bus n w =
     (next_bus w,
      w\<lparr>buses := (buses w)(next_bus w := constructed_bus n), next_bus := Suc (next_bus w)\<rparr>)"

definition logger :: "bid \<Rightarrow> fid \<Rightarrow> world \<Rightarrow> world" where
  "logger b f w = upd_bus b (\<lambda>B. B\<lparr>log := Some f\<rparr>) w"

text \<open>
  One activation of \<open>calculate(key, event)\<close>, with the superclass \<open>super\<close> of \<open>event\<close>
  and the recursive activation \<open>rec\<close> for it.  The assignment
  \<open>superEvent.key = Event.key\<close> only installs the method on a class that lacks it, so
  \<open>superEvent.key()\<close> is \<open>key_static\<close> on the superclass in every case.  Spreading an
  absent \<open>hierarchy[superKey]\<close> raises a \<open>TypeError\<close>.
\<close>

definition calculate_step ::
  "bid \<Rightarrow> cls \<Rightarrow> (symbol \<Rightarrow> world \<Rightarrow> error option \<times> world) \<Rightarrow> symbol \<Rightarrow> world
     \<Rightarrow> error option \<times> world" where
  "calculate_step b super rec k w =
     (if hierarchy (buses w b) k \<noteq> None then (None, w)
      else
        (case key_static super w of (superKey, w1) \<Rightarrow>
          (case (if hierarchy (buses w1 b) superKey = None then rec superKey w1 else (None, w1)) of
             (Some err, w2) \<Rightarrow> (Some err, w2)
           | (None, w2) \<Rightarrow>
               (case hierarchy (buses w2 b) superKey of
                  None \<Rightarrow> (Some (TypeError ''hierarchy[superKey] is not iterable''), w2)
                | Some chain \<Rightarrow>
                    (let w3 = upd_bus b (\<lambda>B. B\<lparr>hierarchy := (hierarchy B)(k \<mapsto> chain @ [k])\<rparr>) w2
                     in (None,
                         if channels (buses w3 b) k = None
                         then upd_bus b (\<lambda>B. B\<lparr>channels := (channels B)(k \<mapsto> [])\<rparr>) w3
                         else w3))))))"

text \<open>
  \<open>calculate\<close>, by recursion on the class.  For \<open>Object\<close> the prototype of
  \<open>Object.prototype\<close> is \<open>null\<close>, and reading \<open>null.constructor\<close> raises.
\<close>

definition calculate_object :: "bid \<Rightarrow> symbol \<Rightarrow> world \<Rightarrow> error option \<times> world" where
  "calculate_object b k w =
     (if hierarchy (buses w b) k \<noteq> None then (None, w)
      else (Some (TypeError ''Cannot read properties of null''), w))"

fun calculate :: "bid \<Rightarrow> cls \<Rightarrow> symbol \<Rightarrow> world \<Rightarrow> error option \<times> world" where
  "calculate b ObjectCls k w = calculate_object b k w"
| "calculate b EventCls k w = calculate_step b ObjectCls (calculate_object b) k w"
| "calculate b (Extends n c) k w = calculate_step b c (\<lambda>k' w'. calculate b c k' w') k w"

definition push_dollar_channel :: "lid \<Rightarrow> symbol \<Rightarrow> world \<Rightarrow> world" where
  "push_dollar_channel l k w =
     w\<lparr>listeners := (listeners w)(l := (listeners w l)
        \<lparr>dollar_channels := dollar_channels (listeners w l) @ [k]\<rparr>)\<rparr>"

definition subscribe :: "bid \<Rightarrow> cls \<Rightarrow> lid \<Rightarrow> world \<Rightarrow> error option \<times> world" where
  "subscribe b c l w =
     (case key_static c w of (k, w1) \<Rightarrow>
       (case (case channels (buses w1 b) k of
                None \<Rightarrow> calculate b c k w1
              | Some ls \<Rightarrow>
                  if l \<in> set ls
                  then (Some (Error ''Cannot add a listener twice to the same channel!''), w1)
                  else (None, w1)) of
          (Some err, w2) \<Rightarrow> (Some err, w2)
        | (None, w2) \<Rightarrow>
            (case channels (buses w2 b) k of
               None \<Rightarrow> (Some (TypeError ''Cannot read properties of undefined''), w2)
             | Some ls \<Rightarrow>
                 (None,
                  push_dollar_channel l k
                    (upd_bus b (\<lambda>B. B\<lparr>channels := (channels B)(k \<mapsto> ls @ [l])\<rparr>) w2)))))"

definition listen ::
  "bid \<Rightarrow> cls \<Rightarrow> string \<Rightarrow> string \<Rightarrow> fid \<Rightarrow> int option \<Rightarrow> world \<Rightarrow> (error + lid) \<times> world" where
  "listen b c n ow f nc w =
     (case new_listener f nc w of
        (Inl err, w1) \<Rightarrow> (Inl err, w1)
      | (Inr l, w1) \<Rightarrow>
          (case subscribe b c l (named l n ow w1) of
             (Some err, w2) \<Rightarrow> (Inl err, w2)
           | (None, w2) \<Rightarrow> (Inr l, w2)))"

fun unsubscribe_each :: "bid \<Rightarrow> lid \<Rightarrow> symbol list \<Rightarrow> world \<Rightarrow> error option \<times> world" where
  "unsubscribe_each b l [] w = (None, w)"
| "unsubscribe_each b l (c # cs) w =
     (case channels (buses w b) c of
        None \<Rightarrow> (Some (TypeError ''Cannot read properties of undefined''), w)
      | Some ls \<Rightarrow>
          unsubscribe_each b l cs
            (upd_bus b (\<lambda>B. B\<lparr>channels := (channels B)(c \<mapsto> filter (\<lambda>x. x \<noteq> l) ls)\<rparr>) w))"

definition unsubscribe :: "bid \<Rightarrow> lid \<Rightarrow> world \<Rightarrow> error option \<times> world" where
  "unsubscribe b l w =
     (case unsubscribe_each b l (dollar_channels (listeners w l)) w of
        (Some err, w1) \<Rightarrow> (Some err, w1)
      | (None, w1) \<Rightarrow>
          (None, w1\<lparr>listeners := (listeners w1)(l := (listeners w1 l)\<lparr>dollar_channels := []\<rparr>)\<rparr>))"

subsection \<open>publish\<close>

text \<open>
  \<open>hierarchy[key].map(k => this.channels[k]).flat()\<close>: the listeners of every channel of
  the chain, in chain order; a key without a channel contributes the one element
  \<open>undefined\<close> (\<open>None\<close>).
\<close>

definition flat_channels :: "bus_obj \<Rightarrow> symbol list \<Rightarrow> lid option list" where
  "flat_channels B chain =
     concat (map (\<lambda>k. case channels B k of None \<Rightarrow> [None] | Some ls \<Rightarrow> map Some ls) chain)"

definition compare_nice :: "world \<Rightarrow> lid \<Rightarrow> lid \<Rightarrow> int" where
  "compare_nice w a b = nice w a - nice w b"

text \<open>
  \<open>Array.prototype.sort\<close> with a comparator is a stable sort that moves \<open>undefined\<close>
  elements to the end without comparing them.  The comparator here orders by a key, so
  the stable result is unique and insertion from the right computes it.
\<close>

fun insort_cmp :: "('a \<Rightarrow> 'a \<Rightarrow> int) \<Rightarrow> 'a \<Rightarrow> 'a list \<Rightarrow> 'a list" where
  "insort_cmp cmp x [] = [x]"
| "insort_cmp cmp x (y # ys) = (if cmp x y \<le> 0 then x # y # ys else y # insort_cmp cmp x ys)"

definition array_sort :: "('a \<Rightarrow> 'a \<Rightarrow> int) \<Rightarrow> 'a option list \<Rightarrow> 'a option list" where
  "array_sort cmp xs =
     map Some (foldr (insort_cmp cmp) (List.map_filter (\<lambda>x. x) xs) []) @ filter (\<lambda>x. x = None) xs"

definition console_error :: "error \<times> lid option \<times> eid \<Rightarrow> world \<Rightarrow> world" where
  "console_error entry w = w\<lparr>console := console w @ [entry]\<rparr>"

definition abort_reason :: string where
  "abort_reason = ''Aborted due to error during listener execution''"

text \<open>
  \<open>execute\<close>.  In \<open>listener.onEvent(event.delivered(listener))\<close> the method is read
  from \<open>listener\<close> before the argument is evaluated, so an \<open>undefined\<close> listener raises
  before any delivery is recorded.  The result is the value handed to \<open>some\<close>.
\<close>

fun execute :: "code \<Rightarrow> lid option \<Rightarrow> eid \<Rightarrow> world \<Rightarrow> bool \<times> world" where
  "execute cd None e w =
     (True, console_error (TypeError ''Cannot read properties of undefined'', None, e)
              (event_abort e (Some abort_reason) w))"
| "execute cd (Some l) e w =
     (case on_event cd l e (delivered e l w) of
        (None, w1) \<Rightarrow> (finished (status (st w1 e)), w1)
      | (Some err, w1) \<Rightarrow>
          (True, console_error (err, Some l, e) (event_abort e (Some abort_reason) w1)))"

text \<open>\<open>.some(l => this.execute(l, event))\<close>: stops at the first \<open>true\<close>.\<close>

fun some_execute :: "code \<Rightarrow> eid \<Rightarrow> lid option list \<Rightarrow> world \<Rightarrow> bool \<times> world" where
  "some_execute cd e [] w = (False, w)"
| "some_execute cd e (l # ls) w =
     (case execute cd l e w of
        (True, w1) \<Rightarrow> (True, w1)
      | (False, w1) \<Rightarrow> some_execute cd e ls w1)"

fun run_log :: "code \<Rightarrow> fid option \<Rightarrow> eid \<Rightarrow> world \<Rightarrow> error option \<times> world" where
  "run_log cd None e w = (None, w)"
| "run_log cd (Some f) e w = cd f e w"

definition publish_order :: "bid \<Rightarrow> symbol list \<Rightarrow> world \<Rightarrow> lid option list" where
  "publish_order b chain w = array_sort (compare_nice w) (flat_channels (buses w b) chain)"

definition bus_publish :: "code \<Rightarrow> bid \<Rightarrow> eid \<Rightarrow> world \<Rightarrow> error option \<times> world" where
  "bus_publish cd b e w =
     (if finished (status (st w e))
      then (Some (Error ''This event has already been processed!''), w)
      else
        (case event_key e w of (k, w1) \<Rightarrow>
          (case hierarchy (buses w1 b) k of
             None \<Rightarrow> (Some (TypeError ''Cannot read properties of undefined''), w1)
           | Some chain \<Rightarrow>
               (let w2 = snd (some_execute cd e (publish_order b chain w1) w1);
                    w3 = event_finish e w2
                in run_log cd (log (buses w3 b)) e w3))))"

text \<open>\<open>Event.publish\<close>: returns the event's promise.\<close>

definition event_publish :: "code \<Rightarrow> eid \<Rightarrow> world \<Rightarrow> (error + pid) \<times> world" where
  "event_publish cd e w =
     (if finished (status (st w e)) then (Inl (Error ''Event has already finished''), w)
      else
        (case bus_publish cd (bus (st w e)) e w of
           (Some err, w1) \<Rightarrow> (Inl err, w1)
         | (None, w1) \<Rightarrow> (Inr (resolution e w1), w1)))"

section \<open>The store after the modules are loaded\<close>

text \<open>
  The bus module creates \<open>root\<close> and the global bus; the class \<open>Event\<close> is defined with
  its static slot initialised to \<open>root\<close>.  References not yet allocated hold
  placeholders.
\<close>

definition blank_event :: event where
  "blank_event =
     \<lparr>ctor = EventCls,
      state = \<lparr>status = RUNNING, reason = None, parent = None, depth = 0,
               deliveries = [], bus = GLOBAL\<rparr>,
      promise = 0, resolver = Resolver 0 0, payload = Map.empty\<rparr>"

definition blank_listener :: listener where
  "blank_listener =
     \<lparr>lname = None, lowner = None, callback = 0, nice_value = 0, dollar_channels = []\<rparr>"

definition init_world :: world where
  "init_world =
     \<lparr>slots = [EventCls \<mapsto> root], next_symbol = 1,
      buses = (\<lambda>_. constructed_bus ''global''), next_bus = 1,
      listeners = (\<lambda>_. blank_listener), next_listener = 0,
      events = (\<lambda>_. blank_event), next_event = 0,
      promises = (\<lambda>_. Pending), next_promise = 0,
      console = []\<rparr>"

section \<open>Invariants and auxiliary notions\<close>

text \<open>Every event class reads \<open>root\<close> from the static slot.\<close>

definition keys_inv :: "world \<Rightarrow> bool" where
  "keys_inv w = (\<forall>c. is_event_cls c \<longrightarrow> read_key_slot (slots w) c = Some root)"

text \<open>
  What the constructor of a bus and \<open>calculate\<close> maintain: \<open>root\<close> has a chain and a
  channel, every chain runs from \<open>root\<close> to its own key, and every key of a chain has a
  channel.
\<close>

definition chains_inv :: "bus_obj \<Rightarrow> bool" where
  "chains_inv B =
     (hierarchy B root \<noteq> None \<and> channels B root \<noteq> None
      \<and> (\<forall>k chain. hierarchy B k = Some chain \<longrightarrow>
             chain \<noteq> [] \<and> hd chain = root \<and> last chain = k
             \<and> k \<in> set chain \<and> (\<forall>k' \<in> set chain. channels B k' \<noteq> None)))"

text \<open>A listener occurs at most once in a channel.\<close>

definition distinct_channels :: "bus_obj \<Rightarrow> bool" where
  "distinct_channels B = (\<forall>k ls. channels B k = Some ls \<longrightarrow> distinct ls)"

definition bus_inv :: "bus_obj \<Rightarrow> bool" where
  "bus_inv B = (chains_inv B \<and> distinct_channels B)"

text \<open>The second bus has the channels of the first and possibly new, empty ones.\<close>

definition adds_empty_channels :: "bus_obj \<Rightarrow> bus_obj \<Rightarrow> bool" where
  "adds_empty_channels B B' =
     (\<forall>k. channels B' k = channels B k \<or> (channels B k = None \<and> channels B' k = Some []))"


text \<open>
  The listeners that \<open>some\<close> hands to \<open>execute\<close>, in the order of the calls: the
  iteration of \<open>some_execute\<close>, recording the elements it visits.
\<close>

fun invoked :: "code \<Rightarrow> eid \<Rightarrow> lid option list \<Rightarrow> world \<Rightarrow> lid option list" where
  "invoked cd e [] w = []"
| "invoked cd e (l # ls) w =
     l # (case execute cd l e w of (True, w1) \<Rightarrow> [] | (False, w1) \<Rightarrow> invoked cd e ls w1)"

text \<open>The callback of a listener leaves the delivery log of the event as it finds it.\<close>

definition keeps_deliveries :: "code \<Rightarrow> eid \<Rightarrow> lid \<Rightarrow> bool" where
  "keeps_deliveries cd e l =
     (\<forall>w. deliveries (st (snd (on_event cd l e w)) e) = deliveries (st w e))"

text \<open>The three operations that write the status, as one step of a sequence.\<close>

datatype lifecycle_op = Finish | Stop "string option" | Abort "string option"

fun apply_op :: "eid \<Rightarrow> lifecycle_op \<Rightarrow> world \<Rightarrow> world" where
  "apply_op e Finish w = event_finish e w"
| "apply_op e (Stop r) w = event_stop e r w"
| "apply_op e (Abort r) w = event_abort e r w"

fun apply_ops :: "eid \<Rightarrow> lifecycle_op list \<Rightarrow> world \<Rightarrow> world" where
  "apply_ops e [] w = w"
| "apply_ops e (x # xs) w = apply_ops e xs (apply_op e x w)"

subsection \<open>Example stores\<close>

text \<open>An application without functions of its own: every call returns at once.\<close>

definition idle_code :: code where
  "idle_code f e w = (None, w)"

text \<open>\<open>new Event()\<close> (event 0).\<close>

definition one_event :: world where
  "one_event = snd (new_event EventCls init_world)"

text \<open>\<open>new Event()\<close> (event 0), then \<open>new Child()\<close> for \<open>class Child extends Event\<close> (event 1).\<close>

definition parent_and_child :: world where
  "parent_and_child = snd (new_event (Extends 1 EventCls) one_event)"

text \<open>\<open>class Child extends Event\<close>.\<close>

definition Child :: cls where
  "Child = Extends 1 EventCls"


text \<open>Function 1 throws; every other function returns at once.\<close>

definition throw_code :: code where
  "throw_code f e w = (if f = 1 then (Some (Error ''boom''), w) else (None, w))"

text \<open>
  Four listeners on the global bus, created by \<open>listen\<close> in this order: listener 0 on
  \<open>Child\<close> with nice value 5, listener 1 on \<open>Event\<close> with nice value 5 and function 1,
  listener 2 on \<open>Event\<close> with the default nice value, listener 3 on \<open>Child\<close> with nice
  value 10; then \<open>new Child()\<close> (event 0).
\<close>

definition four_listeners :: world where
  "four_listeners =
     snd (new_event Child
       (snd (listen GLOBAL Child ''d'' ''app'' 0 (Some 10)
         (snd (listen GLOBAL EventCls ''c'' ''app'' 0 None
           (snd (listen GLOBAL EventCls ''b'' ''app'' 1 (Some 5)
             (snd (listen GLOBAL Child ''a'' ''app'' 0 (Some 5) init_world)))))))))"


text \<open>Function 1 calls \<open>finish\<close> on the event and then throws.\<close>

definition finish_throw_code :: code where
  "finish_throw_code f e w = (if f = 1 then (Some (Error ''boom''), event_finish e w) else (None, w))"


text \<open>The same four listeners, after two more \<open>new Child()\<close> (events 1 and 2).\<close>

definition later_event :: world where
  "later_event = snd (new_event Child (snd (new_event Child four_listeners)))"

text \<open>\<open>new EventListener(f)\<close> (listener 0), and the store after subscribing it to \<open>Child\<close>.\<close>

definition one_listener :: world where
  "one_listener = snd (new_listener 0 None init_world)"

definition subscribed_once :: world where
  "subscribed_once = snd (subscribe GLOBAL Child 0 one_listener)"

section \<open>Event-type keys: results\<close>

lemma read_key_slot_init: "is_event_cls c \<Longrightarrow> read_key_slot [EventCls \<mapsto> root] c = Some root"
  by (induction c) simp_all

lemma keys_inv_init: "keys_inv init_world"
  by (simp add: keys_inv_def init_world_def read_key_slot_init)

lemma key_static_event: "keys_inv w \<Longrightarrow> is_event_cls c \<Longrightarrow> key_static c w = (root, w)"
  by (simp add: keys_inv_def key_static_def)

lemma read_key_slot_other:
  "is_event_cls c \<Longrightarrow> \<not> is_event_cls d \<Longrightarrow> read_key_slot (sl(d \<mapsto> k)) c = read_key_slot sl c"
  by (induction c) (auto split: option.splits)

lemma keys_inv_key_static: "keys_inv w \<Longrightarrow> keys_inv (snd (key_static c w))"
proof (cases "is_event_cls c")
  case True
  assume "keys_inv w"
  with True show ?thesis by (simp add: key_static_event)
next
  case False
  assume "keys_inv w"
  with False show ?thesis
    by (auto simp add: keys_inv_def key_static_def read_key_slot_other split: option.splits)
qed

text \<open>
  C3.  The claim: every event type gets a key of its own on the first query, and a
  subtype never takes its supertype's key from the static slot.  The code reads the slot
  through the prototype chain, so for \<open>class Child extends Event\<close> the query
  \<open>Child.key()\<close> finds the slot of \<open>Event\<close>, assigns nothing and returns \<open>root\<close>, the
  key of \<open>Event\<close> itself.
\<close>

theorem subclass_key_is_root:
  "key_static (Extends 1 EventCls) init_world = (root, init_world)
   \<and> fst (key_static (Extends 1 EventCls) init_world) = fst (key_static EventCls init_world)"
  by (simp add: key_static_def init_world_def)

section \<open>Event: results\<close>

lemma st_upd_state: "st (upd_state e f w) e' = (if e' = e then f (st w e) else st w e')"
  by (simp add: st_def upd_state_def)

lemma st_call_resolver: "st (call_resolver r s w) = st w"
  by (cases r) (auto simp add: st_def settle_def fun_eq_iff)

lemma st_event_finish:
  "st (event_finish e w) e' =
     (if e' = e \<and> \<not> finished (status (st w e)) then (st w e)\<lparr>status := FINISHED\<rparr> else st w e')"
  by (simp add: event_finish_def Let_def st_call_resolver st_upd_state)

lemma st_event_stop:
  "st (event_stop e r w) e' =
     (if e' = e then (st w e)\<lparr>status := STOPPED,
         reason := Some (case r of None \<Rightarrow> ''STOP: Reason not defined.'' | Some x \<Rightarrow> x)\<rparr>
      else st w e')"
  by (simp add: event_stop_def st_upd_state)

lemma st_event_abort:
  "st (event_abort e r w) e' =
     (if e' = e then (st w e)\<lparr>status := ABORTED,
         reason := Some (case r of None \<Rightarrow> ''ABORT: Reason not defined.'' | Some x \<Rightarrow> x)\<rparr>
      else st w e')"
  by (simp add: event_abort_def st_upd_state)

lemma promises_event_finish:
  "resolver (events w e) = Resolver ow q \<Longrightarrow>
   promises (event_finish e w) =
     (if promises w q = Pending
      then (promises w)(q := if aborted (status (st (event_finish e w) e))
                             then Rejected (reason (st w ow)) else Fulfilled ow)
      else promises w)"
  by (auto simp add: event_finish_def Let_def st_def upd_state_def settle_def FINISHED_def)


lemma finished_apply_op:
  "finished (status (st w e)) \<Longrightarrow> finished (status (st (apply_op e x w) e))"
  by (cases x)
     (simp_all add: st_event_finish event_stop_def event_abort_def st_upd_state
        STOPPED_def ABORTED_def)

lemma finished_apply_ops:
  "finished (status (st w e)) \<Longrightarrow> finished (status (st (apply_ops e ops w) e))"
  by (induction ops arbitrary: w) (simp_all add: finished_apply_op)

lemma one_event_facts:
  "status (st one_event 0) = RUNNING"
  "resolver (events one_event 0) = Resolver 0 0"
  "promise (events one_event 0) = 0"
  "promises one_event 0 = Pending"
  "deliveries (st one_event 0) = []"
  "reason (st one_event 0) = None"
  by (simp_all add: one_event_def new_event_def init_world_def Let_def st_def)

text \<open>
  C5.  Publishing an event whose status is already finished fails at once, through
  \<open>Event.publish\<close> and through \<open>EventBus.publish\<close>; no listener runs and the store,
  the event's state included, is what it was.
\<close>

theorem republish_fails:
  "finished (status (st w e)) \<Longrightarrow>
   event_publish cd e w = (Inl (Error ''Event has already finished''), w)
   \<and> bus_publish cd b e w = (Some (Error ''This event has already been processed!''), w)"
  by (simp add: event_publish_def bus_publish_def)

theorem republish_fails_witness:
  "finished (status (st (event_stop 0 (Some ''done'') one_event) 0))
   \<and> event_publish idle_code 0 (event_stop 0 (Some ''done'') one_event) =
       (Inl (Error ''Event has already finished''), event_stop 0 (Some ''done'') one_event)
   \<and> bus_publish idle_code GLOBAL 0 (event_stop 0 (Some ''done'') one_event) =
       (Some (Error ''This event has already been processed!''),
        event_stop 0 (Some ''done'') one_event)"
proof -
  have h: "finished (status (st (event_stop 0 (Some ''done'') one_event) 0))"
    by (simp add: event_stop_def st_upd_state STOPPED_def)
  show ?thesis
    using h republish_fails [OF h, of idle_code GLOBAL] by simp
qed

text \<open>
  C6, as stated: once a terminal status is reached, no operation changes the status
  again.  It fails: \<open>stop\<close> and \<open>abort\<close> write the status without looking at it, so an
  event that was stopped becomes aborted.
\<close>

theorem terminal_status_overwritten:
  "status (st (event_stop 0 (Some ''done'') one_event) 0) = STOPPED
   \<and> status (st (event_abort 0 (Some ''late'') (event_stop 0 (Some ''done'') one_event)) 0) = ABORTED
   \<and> status (st (event_abort 0 (Some ''late'') (event_stop 0 (Some ''done'') one_event)) 0)
       \<noteq> status (st (event_stop 0 (Some ''done'') one_event) 0)"
  by (simp add: event_abort_def event_stop_def st_upd_state ABORTED_def STOPPED_def)

text \<open>
  C6, amended.  From \<open>RUNNING\<close>, \<open>finish\<close> leads to \<open>FINISHED\<close>, \<open>stop\<close> to \<open>STOPPED\<close> and
  \<open>abort\<close> to \<open>ABORTED\<close>.  Once the finished flag is set it stays set under every
  sequence of \<open>finish\<close>, \<open>stop\<close> and \<open>abort\<close>, and \<open>finish\<close> leaves a finished status and
  the reason as they are; \<open>stop\<close> and \<open>abort\<close> set \<open>STOPPED\<close> and \<open>ABORTED\<close>, and store
  the reason given or their default reason, whatever the status was.
\<close>

theorem status_transitions:
  "(status (st w e) = RUNNING \<longrightarrow> status (st (event_finish e w) e) = FINISHED)
   \<and> status (st (event_stop e r w) e) = STOPPED
   \<and> reason (st (event_stop e r w) e)
       = Some (case r of None \<Rightarrow> ''STOP: Reason not defined.'' | Some x \<Rightarrow> x)
   \<and> status (st (event_abort e r w) e) = ABORTED
   \<and> reason (st (event_abort e r w) e)
       = Some (case r of None \<Rightarrow> ''ABORT: Reason not defined.'' | Some x \<Rightarrow> x)
   \<and> reason (st (event_finish e w) e) = reason (st w e)
   \<and> (finished (status (st w e)) \<longrightarrow> status (st (event_finish e w) e) = status (st w e))
   \<and> (finished (status (st w e)) \<longrightarrow> finished (status (st (apply_ops e ops w) e)))"
  by (simp add: finished_apply_ops st_event_finish st_event_stop st_event_abort RUNNING_def)

theorem status_transitions_witness:
  "status (st one_event 0) = RUNNING
   \<and> status (st (event_finish 0 one_event) 0) = FINISHED
   \<and> finished (status (st (event_finish 0 one_event) 0))
   \<and> status (st (event_finish 0 (event_finish 0 one_event)) 0) = FINISHED
   \<and> finished (status (st (apply_ops 0 [Stop None, Abort None, Finish] (event_finish 0 one_event)) 0))
   \<and> status (st (event_abort 0 (Some ''late'') (event_finish 0 one_event)) 0) = ABORTED
   \<and> reason (st (event_abort 0 (Some ''late'') (event_finish 0 one_event)) 0) = Some ''late''
   \<and> reason (st (event_stop 0 None (event_finish 0 one_event)) 0)
       = Some ''STOP: Reason not defined.''"
proof -
  note t0 = status_transitions [of one_event 0]
  note t1 = status_transitions [of "event_finish 0 one_event" 0 None
      "[Stop None, Abort None, Finish]"]
  note t2 = status_transitions [of "event_finish 0 one_event" 0 "Some ''late''"]
  have h: "status (st one_event 0) = RUNNING"
    by (rule one_event_facts)
  have f: "status (st (event_finish 0 one_event) 0) = FINISHED"
    using t0 h by blast
  have g: "finished (status (st (event_finish 0 one_event) 0))"
    using f by (simp add: FINISHED_def)
  have ff: "status (st (event_finish 0 (event_finish 0 one_event)) 0) = FINISHED"
    using t1 g f by simp
  have ops: "finished (status (st (apply_ops 0 [Stop None, Abort None, Finish]
      (event_finish 0 one_event)) 0))"
    using t1 g by blast
  have ab: "status (st (event_abort 0 (Some ''late'') (event_finish 0 one_event)) 0) = ABORTED"
    using t2 by blast
  have ra: "reason (st (event_abort 0 (Some ''late'') (event_finish 0 one_event)) 0) = Some ''late''"
    using t2 by simp
  have rs: "reason (st (event_stop 0 None (event_finish 0 one_event)) 0)
       = Some ''STOP: Reason not defined.''"
    using t1 by simp
  show ?thesis
    by (intro conjI h f g ff ops ab ra rs)
qed



text \<open>
  C10.  \<open>e.inherit(p)\<close> links \<open>p\<close> as parent, which sets the depth of \<open>e\<close> to that of \<open>p\<close>
  plus one, and copies the enumerable own properties of \<open>p\<close> onto \<open>e\<close>: the payload, and
  with it \<open>promise\<close> and \<open>resolver\<close>.  The state slot of \<open>e\<close> (status, reason, deliveries,
  bus) is not copied, and no other event changes.  Afterwards \<open>e.resolution()\<close> is the
  promise of \<open>p\<close>, and \<open>e.finish()\<close> calls the resolver of \<open>p\<close>: it settles the promise that
  resolver was built for, fulfilling it with the resolver's own event or rejecting it
  with that event's reason, and touches no other promise, the one created for \<open>e\<close>
  included.
\<close>

theorem inherit_copies:
  assumes "resolver (events w p) = Resolver ow q"
  shows "status (st (event_inherit e p w) e) = status (st w e)
   \<and> deliveries (st (event_inherit e p w) e) = deliveries (st w e)
   \<and> bus (st (event_inherit e p w) e) = bus (st w e)
   \<and> reason (st (event_inherit e p w) e) = reason (st w e)
   \<and> parent (st (event_inherit e p w) e) = Some p
   \<and> depth (st (event_inherit e p w) e) = depth (st w p) + 1
   \<and> payload (events (event_inherit e p w) e) = payload (events w e) ++ payload (events w p)
   \<and> promise (events (event_inherit e p w) e) = promise (events w p)
   \<and> resolver (events (event_inherit e p w) e) = resolver (events w p)
   \<and> resolution e (event_inherit e p w) = resolution p w
   \<and> (\<forall>x. x \<noteq> e \<longrightarrow> events (event_inherit e p w) x = events w x)
   \<and> promises (event_inherit e p w) = promises w
   \<and> (promises w q = Pending \<longrightarrow>
        promises (event_finish e (event_inherit e p w)) q =
          (if aborted (status (st (event_finish e (event_inherit e p w)) e))
           then Rejected (reason (st (event_inherit e p w) ow)) else Fulfilled ow))
   \<and> (\<forall>q'. q' \<noteq> q \<longrightarrow> promises (event_finish e (event_inherit e p w)) q' = promises w q')"
proof -
  have r: "resolver (events (event_inherit e p w) e) = Resolver ow q"
    using assms
    by (cases "p = e") (simp_all add: event_inherit_def event_set_parent_def upd_state_def)
  have pr: "promises (event_inherit e p w) = promises w"
    by (simp add: event_inherit_def event_set_parent_def upd_state_def)
  have fin: "promises w q = Pending \<longrightarrow>
        promises (event_finish e (event_inherit e p w)) q =
          (if aborted (status (st (event_finish e (event_inherit e p w)) e))
           then Rejected (reason (st (event_inherit e p w) ow)) else Fulfilled ow)"
    using promises_event_finish [OF r] pr by simp
  have oth: "\<forall>q'. q' \<noteq> q \<longrightarrow> promises (event_finish e (event_inherit e p w)) q' = promises w q'"
    using promises_event_finish [OF r] pr by simp
  show ?thesis
    using fin oth
    by (cases "p = e")
       (simp_all add: event_inherit_def event_set_parent_def upd_state_def st_def resolution_def)
qed

theorem inherit_copies_witness:
  "resolver (events parent_and_child 0) = Resolver 0 0
   \<and> promise (events parent_and_child 0) = 0
   \<and> promise (events parent_and_child 1) = 1
   \<and> promises parent_and_child 0 = Pending
   \<and> resolution 1 (event_inherit 1 0 parent_and_child) = 0
   \<and> depth (st (event_inherit 1 0 parent_and_child) 1) = 1
   \<and> promises (event_finish 1 (event_inherit 1 0 parent_and_child)) 0 = Fulfilled 0
   \<and> promises (event_finish 1 (event_inherit 1 0 parent_and_child)) 1 = Pending
   \<and> events (event_inherit 1 0 parent_and_child) 0 = events parent_and_child 0"
proof -
  have h: "resolver (events parent_and_child 0) = Resolver 0 0"
    by (simp add: parent_and_child_def one_event_def new_event_def init_world_def Let_def)
  have a: "\<not> aborted (status (st (event_finish 1 (event_inherit 1 0 parent_and_child)) 1))"
    unfolding st_event_finish
    by (simp add: event_inherit_def event_set_parent_def upd_state_def st_def
         parent_and_child_def one_event_def new_event_def init_world_def Let_def
         RUNNING_def FINISHED_def)
  have b: "promises parent_and_child 0 = Pending" "promises parent_and_child 1 = Pending"
       "promise (events parent_and_child 1) = 1" "promise (events parent_and_child 0) = 0"
       "depth (st parent_and_child 0) = 0"
    by (simp_all add: parent_and_child_def one_event_def new_event_def init_world_def Let_def st_def)
  show ?thesis
    using h inherit_copies [OF h, of 1] a b by (simp add: resolution_def)
qed

section \<open>EventBus: results\<close>

subsection \<open>Frame lemmas\<close>

lemma key_static_frame:
  "buses (snd (key_static c w)) = buses w"
  "listeners (snd (key_static c w)) = listeners w"
  "events (snd (key_static c w)) = events w"
  "promises (snd (key_static c w)) = promises w"
  "console (snd (key_static c w)) = console w"
  by (simp_all add: key_static_def split: option.splits)

lemma upd_bus_frame:
  "buses (upd_bus b f w) b' = (if b' = b then f (buses w b) else buses w b')"
  "listeners (upd_bus b f w) = listeners w"
  "events (upd_bus b f w) = events w"
  "slots (upd_bus b f w) = slots w"
  by (simp_all add: upd_bus_def)

lemma push_dollar_channel_frame:
  "buses (push_dollar_channel l k w) = buses w"
  "events (push_dollar_channel l k w) = events w"
  "slots (push_dollar_channel l k w) = slots w"
  by (simp_all add: push_dollar_channel_def)

lemma frame_delivered:
  "listeners (delivered e l w) = listeners w" "buses (delivered e l w) = buses w"
  "promises (delivered e l w) = promises w" "console (delivered e l w) = console w"
  "resolver (events (delivered e l w) e') = resolver (events w e')"
  by (simp_all add: delivered_def upd_state_def)








lemma st_delivered:
  "st (delivered e l w) e' = (if e' = e then (st w e)\<lparr>deliveries := deliveries (st w e) @ [l]\<rparr> else st w e')"
  by (simp add: delivered_def st_upd_state)

subsection \<open>The invariant of a bus\<close>

lemma bus_inv_alt: "bus_inv B = (chains_inv B \<and> distinct_channels B)"
  by (simp add: bus_inv_def)

lemma bus_inv_constructed: "bus_inv (constructed_bus n)"
  by (simp add: bus_inv_def chains_inv_def distinct_channels_def constructed_bus_def)

lemma adds_empty_refl: "adds_empty_channels B B"
  by (simp add: adds_empty_channels_def)

lemma adds_empty_trans:
  "adds_empty_channels B B' \<Longrightarrow> adds_empty_channels B' B'' \<Longrightarrow> adds_empty_channels B B''"
  unfolding adds_empty_channels_def by metis

lemma calculate_step_adds:
  assumes rec: "\<And>k' w'. adds_empty_channels (buses w' b) (buses (snd (rec k' w')) b)"
  shows "adds_empty_channels (buses w b) (buses (snd (calculate_step b super rec k w)) b)"
proof -
  obtain superKey w1 where ks: "key_static super w = (superKey, w1)"
    by (cases "key_static super w")
  have b1: "buses w1 = buses w" using key_static_frame(1) [of super w] ks by simp
  obtain r w2 where r: "(if hierarchy (buses w1 b) superKey = None then rec superKey w1 else (None, w1)) = (r, w2)"
    by (cases "if hierarchy (buses w1 b) superKey = None then rec superKey w1 else (None, w1)")
  have a2: "adds_empty_channels (buses w b) (buses w2 b)"
  proof (cases "hierarchy (buses w1 b) superKey = None")
    case True
    with r have "w2 = snd (rec superKey w1)" by simp
    with rec [of w1 superKey] b1 show ?thesis by simp
  next
    case False
    with r have "w2 = w1" by simp
    with b1 show ?thesis by (simp add: adds_empty_refl)
  qed
  have "adds_empty_channels (buses w2 b) (buses (snd (calculate_step b super rec k w)) b)
        \<or> snd (calculate_step b super rec k w) = w"
    using ks r
    by (auto simp add: calculate_step_def upd_bus_def Let_def adds_empty_channels_def
          split: option.splits)
  with a2 show ?thesis
    using adds_empty_trans adds_empty_refl by metis
qed

lemma calculate_adds: "adds_empty_channels (buses w b) (buses (snd (calculate b c k w)) b)"
proof (induction c arbitrary: k w)
  case ObjectCls
  show ?case by (simp add: calculate_object_def adds_empty_refl)
next
  case EventCls
  show ?case
    by (simp add: calculate_step_adds calculate_object_def adds_empty_refl)
next
  case (Extends n c)
  show ?case
    by (simp add: calculate_step_adds Extends.IH)
qed

lemma calculate_step_chains:
  assumes rec: "\<And>k' w'. chains_inv (buses w' b) \<Longrightarrow> chains_inv (buses (snd (rec k' w')) b)"
    and inv: "chains_inv (buses w b)"
  shows "chains_inv (buses (snd (calculate_step b super rec k w)) b)"
proof -
  obtain superKey w1 where ks: "key_static super w = (superKey, w1)"
    by (cases "key_static super w")
  have b1: "buses w1 = buses w" using key_static_frame(1) [of super w] ks by simp
  obtain r w2 where r: "(if hierarchy (buses w1 b) superKey = None then rec superKey w1 else (None, w1)) = (r, w2)"
    by (cases "if hierarchy (buses w1 b) superKey = None then rec superKey w1 else (None, w1)")
  have a2: "chains_inv (buses w2 b)"
  proof (cases "hierarchy (buses w1 b) superKey = None")
    case True
    with r have "w2 = snd (rec superKey w1)" by simp
    with rec [of w1 superKey] b1 inv show ?thesis by simp
  next
    case False
    with r have "w2 = w1" by simp
    with b1 inv show ?thesis by simp
  qed
  have fin: "\<And>chain. hierarchy (buses w2 b) superKey = Some chain \<Longrightarrow>
     chains_inv ((buses w2 b)\<lparr>hierarchy := (hierarchy (buses w2 b))(k \<mapsto> chain @ [k]),
                             channels := (channels (buses w2 b))(k \<mapsto> ls)\<rparr>)" for ls
    using a2 unfolding chains_inv_def by auto
  have fin2: "\<And>chain y. hierarchy (buses w2 b) superKey = Some chain \<Longrightarrow> channels (buses w2 b) k = Some y \<Longrightarrow>
     chains_inv ((buses w2 b)\<lparr>hierarchy := (hierarchy (buses w2 b))(k \<mapsto> chain @ [k])\<rparr>)"
    using a2 unfolding chains_inv_def by auto
  show ?thesis
    using ks r a2 inv fin fin2
    by (auto simp add: calculate_step_def upd_bus_def Let_def split: option.splits)
qed

lemma calculate_chains:
  "chains_inv (buses w b) \<Longrightarrow> chains_inv (buses (snd (calculate b c k w)) b)"
proof (induction c arbitrary: k w)
  case ObjectCls
  then show ?case by (simp add: calculate_object_def)
next
  case EventCls
  then show ?case
    by (simp add: calculate_step_chains calculate_object_def)
next
  case (Extends n c)
  then show ?case
    by (simp add: calculate_step_chains)
qed

lemma subscribe_bus_inv:
  assumes "bus_inv (buses w b)"
  shows "bus_inv (buses (snd (subscribe b c l w)) b)"
proof -
  obtain k w1 where ks: "key_static c w = (k, w1)" by (cases "key_static c w")
  have b1: "buses w1 = buses w" using key_static_frame(1) [of c w] ks by simp
  show ?thesis
  proof (cases "channels (buses w1 b) k")
    case None
    obtain r w2 where c: "calculate b c k w1 = (r, w2)" by (cases "calculate b c k w1")
    have ch: "chains_inv (buses w2 b)"
      using calculate_chains [of w1 b c k] c b1 assms by (simp add: bus_inv_alt)
    have ad: "adds_empty_channels (buses w1 b) (buses w2 b)"
      using calculate_adds [of w1 b c k] c by simp
    have di: "distinct_channels (buses w2 b)"
      using ad assms b1 unfolding bus_inv_alt distinct_channels_def adds_empty_channels_def
      by (metis distinct.simps(1) option.inject)
    have em: "channels (buses w2 b) k = None \<or> channels (buses w2 b) k = Some []"
      using ad None unfolding adds_empty_channels_def by metis
    have "bus_inv ((buses w2 b)\<lparr>channels := (channels (buses w2 b))(k \<mapsto> [l])\<rparr>)"
      using ch di unfolding bus_inv_def chains_inv_def distinct_channels_def by auto
    with ch di em show ?thesis
      using ks None c
      by (auto simp add: subscribe_def upd_bus_frame push_dollar_channel_frame bus_inv_alt
            split: option.splits)
  next
    case (Some ls)
    have "l \<notin> set ls \<Longrightarrow> bus_inv ((buses w b)\<lparr>channels := (channels (buses w b))(k \<mapsto> ls @ [l])\<rparr>)"
      using assms Some b1 unfolding bus_inv_def chains_inv_def distinct_channels_def by auto
    then show ?thesis
      using ks Some b1 assms
      by (auto simp add: subscribe_def upd_bus_frame push_dollar_channel_frame)
  qed
qed

lemma unsubscribe_each_bus_inv:
  "bus_inv (buses w b) \<Longrightarrow> bus_inv (buses (snd (unsubscribe_each b l cs w)) b)"
proof (induction cs arbitrary: w)
  case Nil
  then show ?case by simp
next
  case (Cons c cs)
  show ?case
  proof (cases "channels (buses w b) c")
    case None
    with Cons.prems show ?thesis by simp
  next
    case (Some ls)
    have "bus_inv ((buses w b)\<lparr>channels := (channels (buses w b))(c \<mapsto> filter (\<lambda>x. x \<noteq> l) ls)\<rparr>)"
      using Cons.prems Some unfolding bus_inv_def chains_inv_def distinct_channels_def by auto
    then show ?thesis
      using Some Cons.IH [of "upd_bus b (\<lambda>B. B\<lparr>channels := (channels B)(c \<mapsto> filter (\<lambda>x. x \<noteq> l) ls)\<rparr>) w"]
      by (simp add: upd_bus_frame)
  qed
qed

lemma unsubscribe_bus_inv:
  "bus_inv (buses w b) \<Longrightarrow> bus_inv (buses (snd (unsubscribe b l w)) b)"
  using unsubscribe_each_bus_inv [of w b l "dollar_channels (listeners w l)"]
  by (auto simp add: unsubscribe_def split: prod.splits option.splits)

lemma bus_inv_init: "bus_inv (buses init_world b)"
  by (simp add: init_world_def bus_inv_constructed)

lemma bus_inv_new_bus: "bus_inv (buses (snd (new_bus n w)) (fst (new_bus n w)))"
  by (simp add: new_bus_def bus_inv_constructed)

lemma bus_inv_listen:
  "bus_inv (buses w b) \<Longrightarrow> bus_inv (buses (snd (listen b c n ow f nc w)) b)"
proof -
  assume inv: "bus_inv (buses w b)"
  show ?thesis
  proof (cases "new_listener f nc w")
    case (Pair r w1)
    have b1: "buses w1 = buses w"
      using Pair by (auto simp add: new_listener_def Let_def split: if_splits)
    show ?thesis
    proof (cases r)
      case (Inl err)
      with Pair b1 inv show ?thesis by (simp add: listen_def)
    next
      case (Inr l)
      have "bus_inv (buses (named l n ow w1) b)"
        using b1 inv by (simp add: named_def)
      then have "bus_inv (buses (snd (subscribe b c l (named l n ow w1))) b)"
        by (rule subscribe_bus_inv)
      with Pair Inr show ?thesis
        by (auto simp add: listen_def split: prod.splits option.splits)
    qed
  qed
qed

subsection \<open>The invariant of the keys\<close>

lemma keys_inv_slots: "slots w' = slots w \<Longrightarrow> keys_inv w' = keys_inv w"
  by (simp add: keys_inv_def)

lemma calculate_step_keys:
  assumes rec: "\<And>k' w'. keys_inv w' \<Longrightarrow> keys_inv (snd (rec k' w'))"
    and inv: "keys_inv w"
  shows "keys_inv (snd (calculate_step b super rec k w))"
proof -
  obtain superKey w1 where ks: "key_static super w = (superKey, w1)"
    by (cases "key_static super w")
  have i1: "keys_inv w1" using keys_inv_key_static [OF inv, of super] ks by simp
  obtain r w2 where r: "(if hierarchy (buses w1 b) superKey = None then rec superKey w1 else (None, w1)) = (r, w2)"
    by (cases "if hierarchy (buses w1 b) superKey = None then rec superKey w1 else (None, w1)")
  have i2: "keys_inv w2"
  proof (cases "hierarchy (buses w1 b) superKey = None")
    case True
    with r have "w2 = snd (rec superKey w1)" by simp
    with rec [OF i1] show ?thesis by simp
  next
    case False
    with r have "w2 = w1" by simp
    with i1 show ?thesis by simp
  qed
  have "slots (snd (calculate_step b super rec k w)) = slots w2
        \<or> snd (calculate_step b super rec k w) = w"
    using ks r
    by (auto simp add: calculate_step_def upd_bus_frame Let_def split: option.splits)
  with i2 inv show ?thesis
    using keys_inv_slots by metis
qed

lemma keys_inv_calculate: "keys_inv w \<Longrightarrow> keys_inv (snd (calculate b c k w))"
proof (induction c arbitrary: k w)
  case ObjectCls
  then show ?case by (simp add: calculate_object_def)
next
  case EventCls
  then show ?case by (simp add: calculate_step_keys calculate_object_def)
next
  case (Extends n c)
  then show ?case by (simp add: calculate_step_keys)
qed

lemma keys_inv_subscribe: "keys_inv w \<Longrightarrow> keys_inv (snd (subscribe b c l w))"
proof -
  assume inv: "keys_inv w"
  obtain k w1 where ks: "key_static c w = (k, w1)" by (cases "key_static c w")
  have i1: "keys_inv w1" using keys_inv_key_static [OF inv, of c] ks by simp
  have i2: "keys_inv (snd (calculate b c k w1))" using i1 by (rule keys_inv_calculate)
  have up: "\<And>w' f. keys_inv (push_dollar_channel l k (upd_bus b f w')) = keys_inv w'"
    by (rule keys_inv_slots) (simp add: push_dollar_channel_frame upd_bus_frame)
  show ?thesis
    using ks i1 i2
    by (auto simp add: subscribe_def up split: option.splits prod.splits)
qed

lemma keys_inv_new_event: "keys_inv w \<Longrightarrow> keys_inv (snd (new_event c w))"
  by (simp add: keys_inv_def new_event_def Let_def)

lemma keys_inv_new_listener: "keys_inv w \<Longrightarrow> keys_inv (snd (new_listener f n w))"
  by (simp add: keys_inv_def new_listener_def Let_def)

lemma keys_inv_listen: "keys_inv w \<Longrightarrow> keys_inv (snd (listen b c n ow f nc w))"
proof -
  assume inv: "keys_inv w"
  show ?thesis
  proof (cases "new_listener f nc w")
    case (Pair r w1)
    have i1: "keys_inv w1" using keys_inv_new_listener [OF inv, of f nc] Pair by simp
    show ?thesis
    proof (cases r)
      case (Inl err)
      with Pair i1 show ?thesis by (simp add: listen_def)
    next
      case (Inr l)
      have "keys_inv (named l n ow w1)"
        using i1 by (simp add: keys_inv_def named_def)
      then have "keys_inv (snd (subscribe b c l (named l n ow w1)))"
        by (rule keys_inv_subscribe)
      with Pair Inr show ?thesis
        by (auto simp add: listen_def split: prod.splits option.splits)
    qed
  qed
qed

subsection \<open>The order of a dispatch\<close>









subsection \<open>The iteration\<close>




lemma invoked_no_halt:
  "some_execute cd e xs w = (False, w1) \<Longrightarrow> invoked cd e xs w = xs"
  by (induction xs arbitrary: w) (auto split: prod.splits bool.splits)

lemma execute_throw:
  "on_event cd l e (delivered e l w) = (Some err, w2) \<Longrightarrow>
   execute cd (Some l) e w =
     (True, console_error (err, Some l, e) (event_abort e (Some abort_reason) w2))"
  by simp





subsection \<open>The example stores\<close>


lemma four_listeners_listeners:
  "nice four_listeners 0 = 5" "nice four_listeners 1 = 5" "nice four_listeners 2 = 0"
  "nice four_listeners 3 = 10" "nice four_listeners (Suc 0) = 5"
  "callback (listeners four_listeners (Suc 0)) = 1"
  "callback (listeners four_listeners 0) = 0" "callback (listeners four_listeners 1) = 1"
  "callback (listeners four_listeners 2) = 0" "callback (listeners four_listeners 3) = 0"
  by (simp_all add: four_listeners_def Child_def new_event_def listen_def new_listener_def named_def
       subscribe_def key_static_def init_world_def constructed_bus_def upd_bus_def nice_def
       push_dollar_channel_def MIN_VALUE_def MAX_VALUE_def DEFAULT_def GLOBAL_def Let_def)

lemma four_listeners_event:
  "ctor (events four_listeners 0) = Child"
  "st four_listeners 0 = \<lparr>status = RUNNING, reason = None, parent = None, depth = 0,
                        deliveries = [], bus = GLOBAL\<rparr>"
  "resolver (events four_listeners 0) = Resolver 0 0"
  "promises four_listeners 0 = Pending"
  "console four_listeners = []"
  "promise (events four_listeners 0) = 0"
  by (simp_all add: four_listeners_def Child_def new_event_def listen_def new_listener_def named_def
       subscribe_def key_static_def init_world_def constructed_bus_def upd_bus_def st_def
       push_dollar_channel_def MIN_VALUE_def MAX_VALUE_def DEFAULT_def GLOBAL_def Let_def)






lemma throw_code_keeps: "keeps_deliveries throw_code e l"
  by (simp add: keeps_deliveries_def on_event_def throw_code_def)


lemma four_listeners_prefix_throw:
  "some_execute throw_code 0 (map Some [2, 0]) four_listeners
     = (False, delivered 0 0 (delivered 0 2 four_listeners))"
  by (simp add: on_event_def throw_code_def frame_delivered four_listeners_listeners
        st_delivered four_listeners_event RUNNING_def)

lemma subscribed_once_facts:
  "channels (buses subscribed_once GLOBAL) = [root \<mapsto> [0]]"
  "hierarchy (buses subscribed_once GLOBAL) = [root \<mapsto> [root]]"
  "slots subscribed_once = [EventCls \<mapsto> root]"
  "subscribe GLOBAL Child 0 one_listener = (None, subscribed_once)"
  by (simp_all add: subscribed_once_def one_listener_def Child_def new_listener_def
       subscribe_def key_static_def init_world_def constructed_bus_def upd_bus_def
       push_dollar_channel_def MIN_VALUE_def MAX_VALUE_def DEFAULT_def GLOBAL_def Let_def fun_eq_iff)





lemma four_listeners_next: "next_event four_listeners = 1" "next_promise four_listeners = 1"
  by (simp_all add: four_listeners_def Child_def new_event_def listen_def new_listener_def named_def
       subscribe_def key_static_def init_world_def constructed_bus_def upd_bus_def
       push_dollar_channel_def MIN_VALUE_def MAX_VALUE_def DEFAULT_def GLOBAL_def Let_def)

lemma later_event_frame:
  "buses later_event = buses four_listeners"
  "listeners later_event = listeners four_listeners"
  "slots later_event = slots four_listeners"
  "console later_event = []"
  by (simp_all add: later_event_def new_event_def Let_def four_listeners_event)

lemma later_event_event:
  "ctor (events later_event 2) = Child"
  "st later_event 2 = \<lparr>status = RUNNING, reason = None, parent = None, depth = 0,
                        deliveries = [], bus = GLOBAL\<rparr>"
  "resolver (events later_event 2) = Resolver 2 2"
  "promise (events later_event 2) = 2"
  "promises later_event 2 = Pending"
  by (simp_all add: later_event_def new_event_def Let_def four_listeners_next st_def)





lemma later_event_listeners:
  "callback (listeners later_event 0) = 0" "callback (listeners later_event (Suc 0)) = 1"
  "callback (listeners later_event 1) = 1"
  "callback (listeners later_event 2) = 0" "callback (listeners later_event 3) = 0"
  by (simp_all add: later_event_frame four_listeners_listeners)


lemma later_event_prefix_finish_throw:
  "some_execute finish_throw_code 2 (map Some [2, 0]) later_event
     = (False, delivered 2 0 (delivered 2 2 later_event))"
  by (simp add: on_event_def finish_throw_code_def frame_delivered later_event_listeners
        st_delivered later_event_event RUNNING_def)


subsection \<open>Hierarchy inclusion\<close>




subsection \<open>Priority order\<close>



subsection \<open>A listener that throws\<close>




subsection \<open>Short circuit\<close>




subsection \<open>Duplicate subscription\<close>

text \<open>
  C9.  Subscribing a listener to a type in whose channel it already is fails with the
  duplicate-subscription error; apart from the key query the store is unchanged, so the
  channel keeps its length.  \<open>subscribe\<close> and \<open>unsubscribe\<close> keep every channel of the
  bus free of repetitions.
\<close>

theorem duplicate_subscription_rejected:
  "(channels (buses (snd (key_static c w)) b) (fst (key_static c w)) = Some ls \<longrightarrow> l \<in> set ls \<longrightarrow>
      subscribe b c l w =
        (Some (Error ''Cannot add a listener twice to the same channel!''), snd (key_static c w))
      \<and> buses (snd (key_static c w)) = buses w
      \<and> listeners (snd (key_static c w)) = listeners w)
   \<and> (bus_inv (buses w b) \<longrightarrow>
        distinct_channels (buses (snd (subscribe b c l w)) b)
        \<and> distinct_channels (buses (snd (unsubscribe b l w)) b))"
proof -
  obtain k w1 where ks: "key_static c w = (k, w1)" by (cases "key_static c w")
  have dup: "channels (buses w1 b) k = Some ls \<Longrightarrow> l \<in> set ls \<Longrightarrow>
      subscribe b c l w =
        (Some (Error ''Cannot add a listener twice to the same channel!''), w1)"
    using ks by (simp add: subscribe_def)
  have fr: "buses w1 = buses w" "listeners w1 = listeners w"
    using key_static_frame(1,2) [of c w] ks by simp_all
  have inv: "bus_inv (buses w b) \<Longrightarrow>
        distinct_channels (buses (snd (subscribe b c l w)) b)
        \<and> distinct_channels (buses (snd (unsubscribe b l w)) b)"
    using subscribe_bus_inv [of w b c l] unsubscribe_bus_inv [of w b l]
    by (simp add: bus_inv_alt)
  show ?thesis
    using dup fr inv ks by simp
qed

theorem duplicate_subscription_rejected_witness:
  "subscribe GLOBAL Child 0 one_listener = (None, subscribed_once)
   \<and> channels (buses (snd (key_static Child subscribed_once)) GLOBAL)
         (fst (key_static Child subscribed_once)) = Some [0]
   \<and> subscribe GLOBAL Child 0 subscribed_once =
        (Some (Error ''Cannot add a listener twice to the same channel!''), subscribed_once)
   \<and> channels (buses (snd (subscribe GLOBAL Child 0 subscribed_once)) GLOBAL) root = Some [0]
   \<and> bus_inv (buses subscribed_once GLOBAL)
   \<and> distinct_channels (buses (snd (subscribe GLOBAL EventCls 0 subscribed_once)) GLOBAL)
   \<and> distinct_channels (buses (snd (unsubscribe GLOBAL 0 subscribed_once)) GLOBAL)"
proof -
  have k: "key_static Child subscribed_once = (root, subscribed_once)"
    by (simp add: key_static_def subscribed_once_facts Child_def)
  have c: "channels (buses (snd (key_static Child subscribed_once)) GLOBAL)
         (fst (key_static Child subscribed_once)) = Some [0]"
    by (simp add: k subscribed_once_facts)
  have m: "(0::nat) \<in> set [0]" by simp
  have i: "bus_inv (buses subscribed_once GLOBAL)"
    by (simp add: bus_inv_def chains_inv_def distinct_channels_def subscribed_once_facts)
  note th1 = duplicate_subscription_rejected [of Child subscribed_once GLOBAL "[0]" 0]
  note th2 = duplicate_subscription_rejected [of EventCls subscribed_once GLOBAL "[0]" 0]
  have d: "subscribe GLOBAL Child 0 subscribed_once =
        (Some (Error ''Cannot add a listener twice to the same channel!''),
         snd (key_static Child subscribed_once))"
    using th1 c m by blast
  have d': "subscribe GLOBAL Child 0 subscribed_once =
        (Some (Error ''Cannot add a listener twice to the same channel!''), subscribed_once)"
    using d k by simp
  have ch: "channels (buses (snd (subscribe GLOBAL Child 0 subscribed_once)) GLOBAL) root = Some [0]"
    by (simp add: d' subscribed_once_facts)
  have d1: "distinct_channels (buses (snd (subscribe GLOBAL EventCls 0 subscribed_once)) GLOBAL)"
    using th2 i by blast
  have d2: "distinct_channels (buses (snd (unsubscribe GLOBAL 0 subscribed_once)) GLOBAL)"
    using th1 i by blast
  show ?thesis
    by (intro conjI subscribed_once_facts(4) c d' ch i d1 d2)
qed

end
